theory Spec2Isabelle
  imports Main "HOL-Library.AList"
begin

section \<open>Values, dictionaries and Python list operations\<close>

text \<open>
  The records handled by the plugins are Python dictionaries from field names to JSON
  scalars. The field types declared by \<^verbatim>\<open>module_args\<close> in
  \<^verbatim>\<open>artifactory_ldap_settings.py\<close> are \<^verbatim>\<open>str\<close> and \<^verbatim>\<open>bool\<close>, and a field may be
  \<^verbatim>\<open>None\<close>; these are the values modelled. A dictionary is an association list, read
  through \<open>map_of\<close>; Python's \<^verbatim>\<open>==\<close> on dictionaries ignores the order of the entries.
\<close>

datatype jval = JNull | JBool bool | JStr string

type_synonym dict = "(string \<times> jval) list"

text \<open>\<^verbatim>\<open>d[k]\<close>: \<open>None\<close> stands for Python's \<^verbatim>\<open>KeyError\<close>.\<close>

definition dget :: "dict \<Rightarrow> string \<Rightarrow> jval option" where
  "dget d k = map_of d k"

text \<open>\<^verbatim>\<open>d[k] = v\<close>\<close>

definition dset :: "dict \<Rightarrow> string \<Rightarrow> jval \<Rightarrow> dict" where
  "dset d k v = AList.update k v d"

text \<open>\<^verbatim>\<open>d.update(other)\<close>: every entry of \<open>other\<close> is written into \<open>d\<close>.\<close>

definition dict_update :: "dict \<Rightarrow> dict \<Rightarrow> dict" where
  "dict_update d other = AList.merge d other"

text \<open>\<^verbatim>\<open>a == b\<close> on dictionaries: the same fields with the same values.\<close>

definition dict_eq :: "dict \<Rightarrow> dict \<Rightarrow> bool" where
  "dict_eq a b = list_all (\<lambda>k. map_of a k = map_of b k) (map fst a @ map fst b)"

text \<open>\<^verbatim>\<open>str(v)\<close>\<close>

fun py_str :: "jval \<Rightarrow> string" where
  "py_str (JStr s) = s"
| "py_str JNull = ''None''"
| "py_str (JBool True) = ''True''"
| "py_str (JBool False) = ''False''"

text \<open>
  \<^verbatim>\<open>s.lower()\<close>. A character of a string is a code point below 256; among these
  \<^verbatim>\<open>str.lower\<close> moves the letters \<^verbatim>\<open>A\<close> to \<^verbatim>\<open>Z\<close> (65 to 90) and the capital letters of
  Latin-1 (192 to 222, without the multiplication sign 215) up by 32 and leaves the
  others.
\<close>

definition lower_char :: "char \<Rightarrow> char" where
  "lower_char c =
     (let n = (of_char c :: nat) in
      if (65 \<le> n \<and> n \<le> 90) \<or> (192 \<le> n \<and> n \<le> 222 \<and> n \<noteq> 215)
      then char_of (n + 32) else c)"

definition lower :: "string \<Rightarrow> string" where
  "lower s = map lower_char s"

text \<open>
  \<^verbatim>\<open>xs.remove(x)\<close> on a list of dictionaries: the first element equal to \<open>x\<close> is dropped;
  \<open>None\<close> stands for the \<^verbatim>\<open>ValueError\<close> raised when there is none.
\<close>

fun list_remove :: "dict \<Rightarrow> dict list \<Rightarrow> dict list option" where
  "list_remove x [] = None"
| "list_remove x (y # ys) =
     (if dict_eq y x then Some ys
      else (case list_remove x ys of None \<Rightarrow> None | Some zs \<Rightarrow> Some (y # zs)))"

text \<open>The exceptions the source can raise. The reasons for which \<^verbatim>\<open>run\<close> raises
  \<^verbatim>\<open>AnsibleOptionsError\<close> are the constructors of \<open>options_error\<close>; message texts are not
  modelled.\<close>

datatype options_error =
    MissingKey | MissingPackageType | MissingRclass | DuplicateKey
  | InvalidState | InvalidAuthType | InvalidBasicAuth

datatype error =
    AnsibleOptionsError options_error
  | AnsibleActionFail
  | KeyError
  | ValueError
  | TypeError
  | AttributeError

section \<open>The API client of \<^verbatim>\<open>module_utils/ArtifactoryApi.py\<close>\<close>

datatype headers = Authorization string | XJFrogArtApi string

record api =
  baseUrl :: string
  api_headers :: headers
  ignore_ca_error :: bool
  inCheckMode :: bool

text \<open>
  \<^verbatim>\<open>base64.standard_b64encode\<close> takes bytes; applied to the \<^verbatim>\<open>str\<close> that
  \<^verbatim>\<open>auth_string\<close> is, it raises \<^verbatim>\<open>TypeError\<close>.
\<close>

definition api_init :: "string \<Rightarrow> string \<Rightarrow> string \<Rightarrow> bool \<Rightarrow> bool \<Rightarrow> error + api" where
  "api_init artifactory_base_url auth_type auth_string ignore_ca inCheck =
     (if auth_type = ''accesstoken'' then
        Inr \<lparr>baseUrl = artifactory_base_url,
             api_headers = Authorization (''Bearer '' @ auth_string),
             ignore_ca_error = ignore_ca, inCheckMode = inCheck\<rparr>
      else if auth_type = ''apikey'' then
        Inr \<lparr>baseUrl = artifactory_base_url,
             api_headers = XJFrogArtApi auth_string,
             ignore_ca_error = ignore_ca, inCheckMode = inCheck\<rparr>
      else Inl TypeError)"

text \<open>The default of the parameter \<^verbatim>\<open>ignore_ca_error\<close> of \<^verbatim>\<open>__init__\<close>.\<close>

definition default_ignore_ca_error :: bool where
  "default_ignore_ca_error = False"

text \<open>
  The \<^verbatim>\<open>Request\<close> object that \<^verbatim>\<open>_sendRequest\<close> builds and opens:
  \<^verbatim>\<open>Request(headers=self.headers, validate_certs=self.ignore_ca_error)\<close>, opened with the
  method on \<^verbatim>\<open>self.baseUrl + urltail\<close>.
\<close>

record http_request =
  req_url :: string
  req_method :: string
  req_headers :: headers
  validate_certs :: bool
  req_data :: "string option"

definition sendRequest_request :: "api \<Rightarrow> string \<Rightarrow> string \<Rightarrow> string option \<Rightarrow> http_request" where
  "sendRequest_request self urltail method content =
     \<lparr>req_url = baseUrl self @ urltail, req_method = method,
      req_headers = api_headers self, validate_certs = ignore_ca_error self,
      req_data = content\<rparr>"

subsection \<open>Reconciliation in the API client\<close>

text \<open>
  \<^verbatim>\<open>self.configs\<close> holds the empty list that \<^verbatim>\<open>__init__\<close> puts there or, once the loop
  \<^verbatim>\<open>for config in configs: self.configs = self.ConfigRecord(config, self.keyList)\<close> has
  run its body, the one \<^verbatim>\<open>ConfigRecord\<close> of the last configuration.
\<close>

datatype configs_value = ConfigList "dict list" | ConfigRecord dict

definition set_configs :: "dict list \<Rightarrow> configs_value \<Rightarrow> configs_value" where
  "set_configs configs self_configs =
     (if configs = [] then self_configs else ConfigRecord (last configs))"

text \<open>
  \<^verbatim>\<open>ConfigRecord.__eq__\<close> starts with \<^verbatim>\<open>isinstance(other, self.ConfigRecord)\<close>; an instance
  of \<^verbatim>\<open>ConfigRecord\<close> has no attribute of that name. \<^verbatim>\<open>ConfigRecord\<close> has no method
  \<^verbatim>\<open>copy\<close> either.
\<close>

definition ConfigRecord_eq :: "dict \<Rightarrow> dict \<Rightarrow> error + bool" where
  "ConfigRecord_eq self other = Inl AttributeError"

definition ConfigRecord_copy :: "dict \<Rightarrow> error + dict" where
  "ConfigRecord_copy self = Inl AttributeError"

text \<open>
  \<^verbatim>\<open>ConfigRecord.deepEquals\<close> starts with the same test
  \<^verbatim>\<open>isinstance(other, self.ConfigRecord)\<close>. \<open>deepEquals_loop\<close> is the loop
  \<^verbatim>\<open>for key in keys\<close> that follows the test: for every \<^verbatim>\<open>key\<close> of \<^verbatim>\<open>self.record\<close> it
  compares \<^verbatim>\<open>other.record['key']\<close> with \<^verbatim>\<open>self.record['key']\<close>.
\<close>

definition ConfigRecord_isinstance :: "dict \<Rightarrow> dict \<Rightarrow> error + bool" where
  "ConfigRecord_isinstance self other = Inl AttributeError"

fun deepEquals_loop :: "string list \<Rightarrow> dict \<Rightarrow> dict \<Rightarrow> error + bool" where
  "deepEquals_loop [] self other = Inr True"
| "deepEquals_loop (key # keys) self other =
     (case dget other ''key'' of
        None \<Rightarrow> Inl KeyError
      | Some ov \<Rightarrow>
        (case dget self ''key'' of
           None \<Rightarrow> Inl KeyError
         | Some sv \<Rightarrow> if ov \<noteq> sv then Inr False else deepEquals_loop keys self other))"

definition deepEquals :: "dict \<Rightarrow> dict \<Rightarrow> error + bool" where
  "deepEquals self other =
     (case ConfigRecord_isinstance self other of
        Inl e \<Rightarrow> Inl e
      | Inr b \<Rightarrow> if \<not> b then Inr False else deepEquals_loop (map fst self) self other)"

text \<open>\<^verbatim>\<open>item in xs\<close> and \<^verbatim>\<open>xs.remove(item)\<close> on lists of \<^verbatim>\<open>ConfigRecord\<close>s.\<close>

fun record_in :: "dict \<Rightarrow> dict list \<Rightarrow> error + bool" where
  "record_in item [] = Inr False"
| "record_in item (x # xs) =
     (case ConfigRecord_eq x item of
        Inl e \<Rightarrow> Inl e
      | Inr b \<Rightarrow> if b then Inr True else record_in item xs)"

fun record_remove :: "dict \<Rightarrow> dict list \<Rightarrow> error + dict list" where
  "record_remove item [] = Inl ValueError"
| "record_remove item (x # xs) =
     (case ConfigRecord_eq x item of
        Inl e \<Rightarrow> Inl e
      | Inr b \<Rightarrow>
          if b then Inr xs
          else (case record_remove item xs of Inl e \<Rightarrow> Inl e | Inr ys \<Rightarrow> Inr (x # ys)))"

text \<open>
  \<^verbatim>\<open>_sortConfigs\<close>: the result is \<^verbatim>\<open>(onlyInListA, inBoth, onlyInListB)\<close>. Iterating over
  a \<^verbatim>\<open>ConfigRecord\<close> raises \<^verbatim>\<open>TypeError\<close>.
\<close>

fun sortConfigs_loop ::
  "dict list \<Rightarrow> dict list \<Rightarrow> dict list \<times> dict list \<times> dict list
     \<Rightarrow> error + dict list \<times> dict list \<times> dict list"
where
  "sortConfigs_loop [] listB acc = Inr acc"
| "sortConfigs_loop (item # rest) listB (onlyInListA, both, onlyInListB) =
     (case record_in item listB of
        Inl e \<Rightarrow> Inl e
      | Inr found \<Rightarrow>
          (case ConfigRecord_copy item of
             Inl e \<Rightarrow> Inl e
           | Inr c \<Rightarrow>
               if found then
                 (case record_remove item onlyInListB of
                    Inl e \<Rightarrow> Inl e
                  | Inr onlyInListB' \<Rightarrow>
                      sortConfigs_loop rest listB (onlyInListA, both @ [c], onlyInListB'))
               else sortConfigs_loop rest listB (onlyInListA @ [c], both, onlyInListB)))"

definition sortConfigs ::
  "configs_value \<Rightarrow> dict list \<Rightarrow> error + dict list \<times> dict list \<times> dict list"
where
  "sortConfigs configRecordListA configRecordListB =
     (case configRecordListA of
        ConfigRecord r \<Rightarrow> Inl TypeError
      | ConfigList xs \<Rightarrow> sortConfigs_loop xs configRecordListB ([], [], configRecordListB))"

text \<open>
  The abstract methods of the client, over a state \<open>'w\<close> of the remote system, and the
  loops that call one of them on every record of a list.
\<close>

record 'w adapter =
  getConfigRecordListFromArtifactory :: "'w \<Rightarrow> (error + dict list) \<times> 'w"
  addToArtifactory :: "dict \<Rightarrow> 'w \<Rightarrow> error option \<times> 'w"
  updateInArtifactory :: "dict \<Rightarrow> 'w \<Rightarrow> (error + bool) \<times> 'w"
  deleteFromArtifactory :: "dict \<Rightarrow> 'w \<Rightarrow> error option \<times> 'w"

fun for_each :: "(dict \<Rightarrow> 'w \<Rightarrow> error option \<times> 'w) \<Rightarrow> dict list \<Rightarrow> 'w \<Rightarrow> error option \<times> 'w" where
  "for_each f [] w = (None, w)"
| "for_each f (config # rest) w =
     (case f config w of (Some e, w') \<Rightarrow> (Some e, w') | (None, w') \<Rightarrow> for_each f rest w')"

fun update_each ::
  "(dict \<Rightarrow> 'w \<Rightarrow> (error + bool) \<times> 'w) \<Rightarrow> dict list \<Rightarrow> bool \<Rightarrow> 'w \<Rightarrow> (error + bool) \<times> 'w"
where
  "update_each f [] isChanged w = (Inr isChanged, w)"
| "update_each f (config # rest) isChanged w =
     (case f config w of
        (Inl e, w') \<Rightarrow> (Inl e, w')
      | (Inr temp, w') \<Rightarrow> update_each f rest (if temp then True else isChanged) w')"

text \<open>
  \<^verbatim>\<open>applyConfigs\<close>, \<^verbatim>\<open>deleteConfigs\<close> and \<^verbatim>\<open>pruneConfigs\<close>, on the pair of
  \<^verbatim>\<open>self.configs\<close> and the state of the remote system.
\<close>

definition applyConfigs ::
  "'w adapter \<Rightarrow> dict list \<Rightarrow> configs_value \<times> 'w \<Rightarrow> (error + bool) \<times> configs_value \<times> 'w"
where
  "applyConfigs ad configs s =
     (let c = set_configs configs (fst s) in
      case getConfigRecordListFromArtifactory ad (snd s) of
        (Inl e, w1) \<Rightarrow> (Inl e, c, w1)
      | (Inr artifactoryRecordList, w1) \<Rightarrow>
        (case sortConfigs c artifactoryRecordList of
           Inl e \<Rightarrow> (Inl e, c, w1)
         | Inr (onlyInConfigList, both, onlyInArt) \<Rightarrow>
           (case for_each (addToArtifactory ad) onlyInConfigList w1 of
              (Some e, w2) \<Rightarrow> (Inl e, c, w2)
            | (None, w2) \<Rightarrow>
              (case update_each (updateInArtifactory ad) both (onlyInConfigList \<noteq> []) w2 of
                 (r, w3) \<Rightarrow> (r, c, w3)))))"

definition deleteConfigs ::
  "'w adapter \<Rightarrow> dict list \<Rightarrow> configs_value \<times> 'w \<Rightarrow> (error + bool) \<times> configs_value \<times> 'w"
where
  "deleteConfigs ad configs s =
     (let c = set_configs configs (fst s) in
      case getConfigRecordListFromArtifactory ad (snd s) of
        (Inl e, w1) \<Rightarrow> (Inl e, c, w1)
      | (Inr artifactoryRecordList, w1) \<Rightarrow>
        (case sortConfigs c artifactoryRecordList of
           Inl e \<Rightarrow> (Inl e, c, w1)
         | Inr (onlyInConfigList, both, onlyInArt) \<Rightarrow>
           (case for_each (deleteFromArtifactory ad) both w1 of
              (Some e, w2) \<Rightarrow> (Inl e, c, w2)
            | (None, w2) \<Rightarrow> (Inr (both \<noteq> []), c, w2))))"

definition pruneConfigs ::
  "'w adapter \<Rightarrow> dict list \<Rightarrow> configs_value \<times> 'w \<Rightarrow> (error + bool) \<times> configs_value \<times> 'w"
where
  "pruneConfigs ad configs s =
     (let c = set_configs configs (fst s) in
      case getConfigRecordListFromArtifactory ad (snd s) of
        (Inl e, w1) \<Rightarrow> (Inl e, c, w1)
      | (Inr artifactoryRecordList, w1) \<Rightarrow>
        (case sortConfigs c artifactoryRecordList of
           Inl e \<Rightarrow> (Inl e, c, w1)
         | Inr (onlyInConfigList, both, onlyInArt) \<Rightarrow>
           (case for_each (addToArtifactory ad) onlyInConfigList w1 of
              (Some e, w2) \<Rightarrow> (Inl e, c, w2)
            | (None, w2) \<Rightarrow>
              (case update_each (updateInArtifactory ad) both (onlyInConfigList \<noteq> []) w2 of
                 (Inl e, w3) \<Rightarrow> (Inl e, c, w3)
               | (Inr isChanged, w3) \<Rightarrow>
                 (case for_each (deleteFromArtifactory ad) onlyInArt w3 of
                    (Some e, w4) \<Rightarrow> (Inl e, c, w4)
                  | (None, w4) \<Rightarrow>
                      (Inr (if onlyInArt \<noteq> [] then True else isChanged), c, w4))))))"

section \<open>The action plugin \<^verbatim>\<open>action/artifactory_repository.py\<close>\<close>

subsection \<open>Arguments and validation\<close>

text \<open>
  The task arguments other than \<^verbatim>\<open>repository_configs\<close> and \<^verbatim>\<open>artifactory_base_url\<close>,
  which only enters the URLs. \<open>result_warning\<close> is the entry
  \<^verbatim>\<open>'warning'\<close> of the dictionary returned by the parent class's \<^verbatim>\<open>run\<close>: \<open>None\<close> when
  the dictionary has no such entry, \<open>Some None\<close> when the entry is \<^verbatim>\<open>None\<close>.
\<close>

record args =
  arg_state :: string
  arg_auth_type :: string
  arg_auth_string :: string
  arg_ignore_ca_error :: bool
  result_warning :: "string list option option"

text \<open>Lines 118 to 126: the required fields of every repository configuration.\<close>

fun check_required :: "dict list \<Rightarrow> error option" where
  "check_required [] = None"
| "check_required (repo # rest) =
     (case dget repo ''key'' of None \<Rightarrow> Some KeyError
      | Some k \<Rightarrow>
        if k = JNull then Some (AnsibleOptionsError MissingKey)
        else (case dget repo ''packageType'' of None \<Rightarrow> Some KeyError
          | Some pt \<Rightarrow>
            if pt = JNull then Some (AnsibleOptionsError MissingPackageType)
            else (case dget repo ''rclass'' of None \<Rightarrow> Some KeyError
              | Some rc \<Rightarrow>
                if rc = JNull then Some (AnsibleOptionsError MissingRclass)
                else check_required rest)))"

text \<open>\<^verbatim>\<open>v.lower()\<close> on a field value: only \<^verbatim>\<open>str\<close> has the method.\<close>

fun value_lower :: "jval \<Rightarrow> error + string" where
  "value_lower (JStr s) = Inr (lower s)"
| "value_lower JNull = Inl AttributeError"
| "value_lower (JBool b) = Inl AttributeError"

text \<open>
  Lines 127 to 131: the keys are compared pairwise in lower case. The two index loops
  visit every record \<open>repo1\<close> with each record \<open>repo2\<close> after it, in list order.
\<close>

fun unique_inner :: "dict \<Rightarrow> dict list \<Rightarrow> error option" where
  "unique_inner repo1 [] = None"
| "unique_inner repo1 (repo2 # rest) =
     (case dget repo1 ''key'' of None \<Rightarrow> Some KeyError
      | Some k1 \<Rightarrow>
        (case value_lower k1 of Inl e \<Rightarrow> Some e
         | Inr l1 \<Rightarrow>
           (case dget repo2 ''key'' of None \<Rightarrow> Some KeyError
            | Some k2 \<Rightarrow>
              (case value_lower k2 of Inl e \<Rightarrow> Some e
               | Inr l2 \<Rightarrow>
                 if l1 = l2 then Some (AnsibleOptionsError DuplicateKey)
                 else unique_inner repo1 rest))))"

fun unique_outer :: "dict list \<Rightarrow> error option" where
  "unique_outer [] = None"
| "unique_outer (repo1 # rest) =
     (case unique_inner repo1 rest of Some e \<Rightarrow> Some e | None \<Rightarrow> unique_outer rest)"

definition check_unique :: "dict list \<Rightarrow> error option" where
  "check_unique configs = (if 2 \<le> length configs then unique_outer configs else None)"

text \<open>Lines 134 to 136: the target state, in lower case.\<close>

definition check_state :: "string \<Rightarrow> error + string" where
  "check_state st =
     (let s = lower st in
      if \<not> (s = ''absent'' \<or> s = ''present'' \<or> s = ''prune'')
      then Inl (AnsibleOptionsError InvalidState) else Inr s)"

text \<open>
  Lines 137 to 163: the parameters every call of the \<^verbatim>\<open>uri\<close> module carries. As in
  the API client, the basic authentication header applies \<^verbatim>\<open>base64.standard_b64encode\<close>
  to a \<^verbatim>\<open>str\<close>. \<open>up_validate_certs = None\<close> leaves the \<^verbatim>\<open>uri\<close> module's default (validation
  on).
\<close>

record uri_params =
  up_headers :: headers
  up_validate_certs :: "string option"
  up_warning :: "string list option option"

definition build_uri_params :: "args \<Rightarrow> error + uri_params" where
  "build_uri_params a =
     (let auth_type = lower (arg_auth_type a) in
      if \<not> (auth_type = ''basic'' \<or> auth_type = ''accesstoken'' \<or> auth_type = ''apikey'')
      then Inl (AnsibleOptionsError InvalidAuthType)
      else if auth_type = ''basic'' \<and> CHR '':'' \<notin> set (arg_auth_string a)
      then Inl (AnsibleOptionsError InvalidBasicAuth)
      else if auth_type = ''basic'' then Inl TypeError
      else
        (let hs = (if auth_type = ''accesstoken''
                   then Authorization (''Bearer '' @ arg_auth_string a)
                   else XJFrogArtApi (arg_auth_string a)) in
         if arg_ignore_ca_error a then
           (case result_warning a of
              None \<Rightarrow> Inl KeyError
            | Some None \<Rightarrow>
                Inr \<lparr>up_headers = hs, up_validate_certs = Some ''no'',
                     up_warning = Some (Some [''API calls to Artifactory are not validating CA certs. Auth tokens vulnerable to MITM attack.''])\<rparr>
            | Some (Some ws) \<Rightarrow>
                Inr \<lparr>up_headers = hs, up_validate_certs = Some ''no'',
                     up_warning = Some (Some (ws @ [''API calls to Artifactory are not validating CA certs. Auth tokens vulnerable to MITM attack.'']))\<rparr>)
         else Inr \<lparr>up_headers = hs, up_validate_certs = None, up_warning = result_warning a\<rparr>))"

subsection \<open>Calls to the remote server\<close>

text \<open>
  Every remote call goes through \<^verbatim>\<open>self._execute_module('uri', ...)\<close>. A call is identified
  by its method and by the repository key that ends its URL; \<open>PutRepo\<close> and \<open>PostRepo\<close> carry
  the body. The server is not part of the repository: it is a parameter, a function from the
  calls issued so far and the current call to the response. \<open>Failed\<close> is a result with
  \<^verbatim>\<open>failed\<close> set; \<open>Repos\<close> and \<open>Repo\<close> are the parsed contents of a repository list and of
  one repository configuration. A content of the wrong shape is a \<^verbatim>\<open>TypeError\<close>; the text
  of the \<^verbatim>\<open>AnsibleActionFail\<close> raised on a failed call is not modelled.
\<close>

datatype request =
    GetRepos
  | GetRepo string
  | PutRepo string dict
  | PostRepo string dict
  | DeleteRepo string

datatype response = Failed | Repos "dict list" | Repo dict | NoContent

type_synonym server = "request list \<Rightarrow> request \<Rightarrow> response"

text \<open>A call that creates, updates or deletes.\<close>

fun is_mutation :: "request \<Rightarrow> bool" where
  "is_mutation GetRepos = False"
| "is_mutation (GetRepo k) = False"
| "is_mutation (PutRepo k body) = True"
| "is_mutation (PostRepo k body) = True"
| "is_mutation (DeleteRepo k) = True"

text \<open>A call that creates, updates or deletes the repository with the key \<open>k\<close>.\<close>

fun mutates :: "string \<Rightarrow> request \<Rightarrow> bool" where
  "mutates k GetRepos = False"
| "mutates k (GetRepo k') = False"
| "mutates k (PutRepo k' body) = (k' = k)"
| "mutates k (PostRepo k' body) = (k' = k)"
| "mutates k (DeleteRepo k') = (k' = k)"

text \<open>
  \<^verbatim>\<open>baseUrl + 'api/repositories/' + repo['key']\<close>: the key must be there, and a \<^verbatim>\<open>str\<close>
  to be appended to a \<^verbatim>\<open>str\<close>.
\<close>

definition url_key :: "dict \<Rightarrow> error + string" where
  "url_key repo =
     (case dget repo ''key'' of
        None \<Rightarrow> Inl KeyError
      | Some (JStr k) \<Rightarrow> Inr k
      | Some JNull \<Rightarrow> Inl TypeError
      | Some (JBool b) \<Rightarrow> Inl TypeError)"

text \<open>The key of a record as it ends a URL; empty when there is no string to append.\<close>

definition repo_key :: "dict \<Rightarrow> string" where
  "repo_key repo =
     (case dget repo ''key'' of
        Some (JStr k) \<Rightarrow> k
      | Some JNull \<Rightarrow> []
      | Some (JBool b) \<Rightarrow> []
      | None \<Rightarrow> [])"

text \<open>Lines 165 to 179: the list of the repositories on the server.\<close>

definition get_repos :: "server \<Rightarrow> request list \<Rightarrow> (error + dict list) \<times> request list" where
  "get_repos srv tr =
     (case srv tr GetRepos of
        Failed \<Rightarrow> (Inl AnsibleActionFail, tr @ [GetRepos])
      | Repos jsonGetResult \<Rightarrow> (Inr jsonGetResult, tr @ [GetRepos])
      | Repo d \<Rightarrow> (Inl TypeError, tr @ [GetRepos])
      | NoContent \<Rightarrow> (Inl TypeError, tr @ [GetRepos]))"

subsection \<open>The partition\<close>

text \<open>
  Lines 186 to 197. \<open>sort_inner\<close> is the loop over \<^verbatim>\<open>jsonGetResult\<close> for one \<^verbatim>\<open>repo\<close>;
  it returns the record \<^verbatim>\<open>repo\<close>, whose key the loop overwrites in place, with the three
  lists. \<open>sort_outer\<close> is the loop over \<^verbatim>\<open>args['repository_configs']\<close>: \<open>done\<close> holds the
  records already visited, as the loop left them, so that the first component of the
  result is the caller's list after the loop. After validation no two records of that
  list are equal, so that \<^verbatim>\<open>onlyInArgs.remove(repo)\<close> finds \<^verbatim>\<open>repo\<close> itself and the record
  written to is in no other list at that moment.
\<close>

record partition =
  onlyInArgs :: "dict list"
  inBoth :: "dict list"
  onlyInArtifactory :: "dict list"

fun sort_inner :: "dict list \<Rightarrow> dict \<Rightarrow> partition \<Rightarrow> error option \<times> dict \<times> partition" where
  "sort_inner [] repo p = (None, repo, p)"
| "sort_inner (item # items) repo p =
     (case dget item ''key'' of None \<Rightarrow> (Some KeyError, repo, p)
      | Some ik \<Rightarrow>
        (case dget repo ''key'' of None \<Rightarrow> (Some KeyError, repo, p)
         | Some rk \<Rightarrow>
           if lower (py_str ik) = lower (py_str rk) then
             (case list_remove repo (onlyInArgs p) of
                None \<Rightarrow> (Some ValueError, repo, p)
              | Some args' \<Rightarrow>
                (case list_remove (dset repo ''key'' ik) (onlyInArtifactory p) of
                   None \<Rightarrow>
                     (Some ValueError, dset repo ''key'' ik,
                      p\<lparr>onlyInArgs := args', inBoth := inBoth p @ [dset repo ''key'' ik]\<rparr>)
                 | Some art' \<Rightarrow>
                     sort_inner items (dset repo ''key'' ik)
                       \<lparr>onlyInArgs = args', inBoth = inBoth p @ [dset repo ''key'' ik],
                        onlyInArtifactory = art'\<rparr>))
           else sort_inner items repo p))"

fun sort_outer ::
  "dict list \<Rightarrow> dict list \<Rightarrow> dict list \<Rightarrow> partition \<Rightarrow> error option \<times> dict list \<times> partition"
where
  "sort_outer items done [] p = (None, done, p)"
| "sort_outer items done (repo # todo) p =
     (case sort_inner items repo p of
        (Some e, repo', p') \<Rightarrow> (Some e, done @ repo' # todo, p')
      | (None, repo', p') \<Rightarrow> sort_outer items (done @ [repo']) todo p')"

definition sort_repos :: "dict list \<Rightarrow> dict list \<Rightarrow> error option \<times> dict list \<times> partition" where
  "sort_repos configs jsonGetResult =
     sort_outer jsonGetResult [] configs
       \<lparr>onlyInArgs = configs, inBoth = [], onlyInArtifactory = jsonGetResult\<rparr>"

text \<open>
  The key of a record as the partition compares it, and the relation between a record
  and what the partition may leave in its place: the same entries but for the key, and
  a key that is the same in lower case.
\<close>

definition lower_key :: "dict \<Rightarrow> string option" where
  "lower_key r = map_option (\<lambda>v. lower (py_str v)) (dget r ''key'')"

definition same_but_key_case :: "dict \<Rightarrow> dict \<Rightarrow> bool" where
  "same_but_key_case d d' \<longleftrightarrow>
     AList.delete ''key'' d' = AList.delete ''key'' d \<and> lower_key d' = lower_key d"

subsection \<open>The three batches\<close>

text \<open>Lines 208 to 221: one \<^verbatim>\<open>PUT\<close> for every record of \<^verbatim>\<open>onlyInArgs\<close>.\<close>

fun put_repos :: "server \<Rightarrow> dict list \<Rightarrow> request list \<Rightarrow> error option \<times> request list" where
  "put_repos srv [] tr = (None, tr)"
| "put_repos srv (repo # rest) tr =
     (case url_key repo of
        Inl e \<Rightarrow> (Some e, tr)
      | Inr k \<Rightarrow>
        (case srv tr (PutRepo k repo) of
           Failed \<Rightarrow> (Some AnsibleActionFail, tr @ [PutRepo k repo])
         | Repos js \<Rightarrow> put_repos srv rest (tr @ [PutRepo k repo])
         | Repo d \<Rightarrow> put_repos srv rest (tr @ [PutRepo k repo])
         | NoContent \<Rightarrow> put_repos srv rest (tr @ [PutRepo k repo])))"

text \<open>
  Lines 225 to 259: for every record of \<^verbatim>\<open>inBoth\<close> the current configuration is read,
  the record is merged over a copy of it, and the result compared with it. The counter
  \<^verbatim>\<open>updatedRepos\<close> is the fourth argument.
\<close>

fun update_repos ::
  "server \<Rightarrow> bool \<Rightarrow> dict list \<Rightarrow> nat \<Rightarrow> request list \<Rightarrow> (error + nat) \<times> request list"
where
  "update_repos srv check_mode [] updatedRepos tr = (Inr updatedRepos, tr)"
| "update_repos srv check_mode (repo # rest) updatedRepos tr =
     (case url_key repo of
        Inl e \<Rightarrow> (Inl e, tr)
      | Inr k \<Rightarrow>
        (case srv tr (GetRepo k) of
           Failed \<Rightarrow> (Inl AnsibleActionFail, tr @ [GetRepo k])
         | Repos js \<Rightarrow> (Inl TypeError, tr @ [GetRepo k])
         | NoContent \<Rightarrow> (Inl TypeError, tr @ [GetRepo k])
         | Repo currentConfig \<Rightarrow>
             if \<not> dict_eq (dict_update currentConfig repo) currentConfig then
               if \<not> check_mode then
                 (case srv (tr @ [GetRepo k]) (PostRepo k repo) of
                    Failed \<Rightarrow> (Inl AnsibleActionFail, tr @ [GetRepo k, PostRepo k repo])
                  | Repos js \<Rightarrow>
                      update_repos srv check_mode rest (updatedRepos + 1)
                        (tr @ [GetRepo k, PostRepo k repo])
                  | Repo d \<Rightarrow>
                      update_repos srv check_mode rest (updatedRepos + 1)
                        (tr @ [GetRepo k, PostRepo k repo])
                  | NoContent \<Rightarrow>
                      update_repos srv check_mode rest (updatedRepos + 1)
                        (tr @ [GetRepo k, PostRepo k repo]))
               else update_repos srv check_mode rest (updatedRepos + 1) (tr @ [GetRepo k])
             else update_repos srv check_mode rest updatedRepos (tr @ [GetRepo k])))"

text \<open>Lines 268 to 281: one \<^verbatim>\<open>DELETE\<close> for every record of \<^verbatim>\<open>toRemove\<close>.\<close>

fun delete_repos ::
  "server \<Rightarrow> bool \<Rightarrow> dict list \<Rightarrow> request list \<Rightarrow> error option \<times> request list"
where
  "delete_repos srv check_mode [] tr = (None, tr)"
| "delete_repos srv check_mode (repo # rest) tr =
     (if \<not> check_mode then
        (case url_key repo of
           Inl e \<Rightarrow> (Some e, tr)
         | Inr k \<Rightarrow>
           (case srv tr (DeleteRepo k) of
              Failed \<Rightarrow> (Some AnsibleActionFail, tr @ [DeleteRepo k])
            | Repos js \<Rightarrow> delete_repos srv check_mode rest (tr @ [DeleteRepo k])
            | Repo d \<Rightarrow> delete_repos srv check_mode rest (tr @ [DeleteRepo k])
            | NoContent \<Rightarrow> delete_repos srv check_mode rest (tr @ [DeleteRepo k])))
      else delete_repos srv check_mode rest tr)"

subsection \<open>The run\<close>

text \<open>
  What \<^verbatim>\<open>run\<close> returns: the flag \<^verbatim>\<open>changed\<close> and the three counters the message is
  built from.
\<close>

record result =
  changed :: bool
  addedRepos :: nat
  updatedRepos :: nat
  deletedRepos :: nat

text \<open>
  Lines 199 to 291, for the validated state \<open>st\<close> and the partition \<open>p\<close>: the three
  batches in the order of the source, then the report.
\<close>

definition reconcile ::
  "server \<Rightarrow> bool \<Rightarrow> string \<Rightarrow> partition \<Rightarrow> request list \<Rightarrow> (error + result) \<times> request list"
where
  "reconcile srv check_mode st p tr =
     (let added = (if (st = ''present'' \<or> st = ''prune'') \<and> onlyInArgs p \<noteq> []
                   then length (onlyInArgs p) else 0)
      in
      case (if (st = ''present'' \<or> st = ''prune'') \<and> onlyInArgs p \<noteq> [] \<and> \<not> check_mode
            then put_repos srv (onlyInArgs p) tr else (None, tr)) of
        (Some e, tr1) \<Rightarrow> (Inl e, tr1)
      | (None, tr1) \<Rightarrow>
        (case (if (st = ''present'' \<or> st = ''prune'') \<and> inBoth p \<noteq> []
               then update_repos srv check_mode (inBoth p) 0 tr1 else (Inr 0, tr1)) of
           (Inl e, tr2) \<Rightarrow> (Inl e, tr2)
         | (Inr updated, tr2) \<Rightarrow>
           (let toRemove0 = (if st = ''absent'' \<and> inBoth p \<noteq> [] then inBoth p else []);
                toRemove = (if st = ''prune'' \<and> onlyInArtifactory p \<noteq> []
                            then onlyInArtifactory p else toRemove0)
            in
            case delete_repos srv check_mode toRemove tr2 of
              (Some e, tr3) \<Rightarrow> (Inl e, tr3)
            | (None, tr3) \<Rightarrow>
                (Inr \<lparr>changed = (added + updated + length toRemove \<noteq> 0),
                      addedRepos = added, updatedRepos = updated,
                      deletedRepos = length toRemove\<rparr>, tr3))))"

text \<open>
  The state a run works on: the caller's list \<^verbatim>\<open>args['repository_configs']\<close>, whose
  records the partition writes to, and the calls issued to the server so far.
\<close>

record state =
  repository_configs :: "dict list"
  trace :: "request list"

definition run :: "server \<Rightarrow> bool \<Rightarrow> args \<Rightarrow> state \<Rightarrow> (error + result) \<times> state" where
  "run srv check_mode a s =
     (case check_required (repository_configs s) of
        Some e \<Rightarrow> (Inl e, s)
      | None \<Rightarrow>
        (case check_unique (repository_configs s) of
           Some e \<Rightarrow> (Inl e, s)
         | None \<Rightarrow>
           (case check_state (arg_state a) of
              Inl e \<Rightarrow> (Inl e, s)
            | Inr st \<Rightarrow>
              (case build_uri_params a of
                 Inl e \<Rightarrow> (Inl e, s)
               | Inr up \<Rightarrow>
                 (case get_repos srv (trace s) of
                    (Inl e, tr1) \<Rightarrow> (Inl e, s\<lparr>trace := tr1\<rparr>)
                  | (Inr jsonGetResult, tr1) \<Rightarrow>
                    (case sort_repos (repository_configs s) jsonGetResult of
                       (Some e, configs', p) \<Rightarrow>
                         (Inl e, \<lparr>repository_configs = configs', trace = tr1\<rparr>)
                     | (None, configs', p) \<Rightarrow>
                       (case reconcile srv check_mode st p tr1 of
                          (r, tr2) \<Rightarrow> (r, \<lparr>repository_configs = configs', trace = tr2\<rparr>))))))))"

subsection \<open>Example inputs\<close>

text \<open>
  A repository configuration with the three required fields, task arguments for the
  state \<^verbatim>\<open>Present\<close> with an access token, and a server that creates what it is asked
  to and lists every repository with its key and its type.
\<close>

definition repo_r1 :: dict where
  "repo_r1 = [(''key'', JStr ''r1''), (''rclass'', JStr ''local''), (''packageType'', JStr ''maven'')]"

definition present_args :: args where
  "present_args =
     \<lparr>arg_state = ''Present'', arg_auth_type = ''AccessToken'', arg_auth_string = ''token'',
      arg_ignore_ca_error = False, result_warning = None\<rparr>"

definition listing_server :: server where
  "listing_server tr rq =
     (case rq of
        GetRepos \<Rightarrow>
          Repos (concat (map (\<lambda>c. case c of
                     PutRepo k body \<Rightarrow> [[(''key'', JStr k), (''type'', JStr ''LOCAL'')]]
                   | GetRepos \<Rightarrow> [] | GetRepo k \<Rightarrow> [] | PostRepo k body \<Rightarrow> []
                   | DeleteRepo k \<Rightarrow> []) tr))
      | GetRepo k \<Rightarrow> Failed
      | PutRepo k body \<Rightarrow> NoContent
      | PostRepo k body \<Rightarrow> NoContent
      | DeleteRepo k \<Rightarrow> NoContent)"

text \<open>An adapter of the API client whose every call succeeds, on a remote system that
  holds one LDAP setting.\<close>

definition succeeding_adapter :: "dict list adapter" where
  "succeeding_adapter =
     \<lparr>getConfigRecordListFromArtifactory = (\<lambda>w. (Inr w, w)),
      addToArtifactory = (\<lambda>c w. (None, w @ [c])),
      updateInArtifactory = (\<lambda>c w. (Inr False, w)),
      deleteFromArtifactory = (\<lambda>c w. (None, w))\<rparr>"

text \<open>
  A server that holds the repositories \<open>A\<close>, lists them in full and accepts every
  change; task arguments for the state \<^verbatim>\<open>Prune\<close> with an API key; further repository
  configurations.
\<close>

definition static_server :: "dict list \<Rightarrow> server" where
  "static_server A tr rq =
     (case rq of
        GetRepos \<Rightarrow> Repos A
      | GetRepo k \<Rightarrow>
          (case filter (\<lambda>d. dget d ''key'' = Some (JStr k)) A of [] \<Rightarrow> Failed | d # ds \<Rightarrow> Repo d)
      | PutRepo k body \<Rightarrow> NoContent
      | PostRepo k body \<Rightarrow> NoContent
      | DeleteRepo k \<Rightarrow> NoContent)"

definition prune_args :: args where
  "prune_args =
     \<lparr>arg_state = ''Prune'', arg_auth_type = ''ApiKey'', arg_auth_string = ''secret'',
      arg_ignore_ca_error = False, result_warning = None\<rparr>"

definition repo_old :: dict where
  "repo_old = [(''key'', JStr ''old''), (''rclass'', JStr ''local''), (''packageType'', JStr ''npm'')]"

definition repo_R1 :: dict where
  "repo_R1 = [(''key'', JStr ''R1''), (''rclass'', JStr ''local''), (''packageType'', JStr ''maven'')]"

definition repo_r1_npm :: dict where
  "repo_r1_npm = [(''key'', JStr ''r1''), (''rclass'', JStr ''local''), (''packageType'', JStr ''npm'')]"

text \<open>
  A server that lists \<open>repo_r1\<close> as it is desired and answers every read of one
  repository with another package type.
\<close>

definition drifted_server :: server where
  "drifted_server tr rq =
     (case rq of
        GetRepos \<Rightarrow> Repos [repo_r1]
      | GetRepo k \<Rightarrow> Repo repo_r1_npm
      | PutRepo k body \<Rightarrow> NoContent
      | PostRepo k body \<Rightarrow> NoContent
      | DeleteRepo k \<Rightarrow> NoContent)"

text \<open>Two LDAP settings with the same key, one enabled and one not.\<close>

definition ldap_enabled :: dict where
  "ldap_enabled = [(''key'', JStr ''myconnection''), (''enabled'', JBool True)]"

definition ldap_disabled :: dict where
  "ldap_disabled = [(''key'', JStr ''myconnection''), (''enabled'', JBool False)]"

section \<open>Properties\<close>

subsection \<open>Auxiliary facts\<close>

lemma dict_eq_iff: "dict_eq a b \<longleftrightarrow> map_of a = map_of b"
proof
  assume h: "dict_eq a b"
  show "map_of a = map_of b"
  proof
    fix k
    show "map_of a k = map_of b k"
    proof (cases "k \<in> fst ` set a \<union> fst ` set b")
      case True
      then show ?thesis using h by (auto simp: dict_eq_def list_all_iff)
    next
      case False
      then have "map_of a k = None" "map_of b k = None"
        by (simp_all add: map_of_eq_None_iff)
      then show ?thesis by simp
    qed
  qed
next
  assume "map_of a = map_of b"
  then show "dict_eq a b" by (simp add: dict_eq_def list_all_iff)
qed

lemma map_of_dict_update: "map_of (dict_update cur repo) = map_of cur ++ map_of repo"
  by (simp add: dict_update_def merge_conv')

lemma url_key_str: "dget r ''key'' = Some (JStr k) \<Longrightarrow> url_key r = Inr k"
  by (simp add: url_key_def)

lemma delete_repos_all:
  assumes "\<forall>r \<in> set A. dget r ''key'' = Some (JStr (repo_key r))"
    and "\<forall>tr k. srv tr (DeleteRepo k) \<noteq> Failed"
  shows "delete_repos srv False A tr = (None, tr @ map (\<lambda>r. DeleteRepo (repo_key r)) A)"
  using assms
proof (induction A arbitrary: tr)
  case Nil
  then show ?case by simp
next
  case (Cons r A)
  have k: "url_key r = Inr (repo_key r)" using Cons.prems(1) by (simp add: url_key_str)
  have nf: "srv tr (DeleteRepo (repo_key r)) \<noteq> Failed" using Cons.prems(2) by blast
  have ih: "delete_repos srv False A (tr @ [DeleteRepo (repo_key r)]) =
      (None, (tr @ [DeleteRepo (repo_key r)]) @ map (\<lambda>r. DeleteRepo (repo_key r)) A)"
    using Cons.IH Cons.prems by simp
  show ?case using k nf ih by (simp split: response.split)
qed

lemma sort_repos_empty: "sort_repos [] A = (None, [], \<lparr>onlyInArgs = [], inBoth = [], onlyInArtifactory = A\<rparr>)"
  by (simp add: sort_repos_def)


lemma update_repos_append:
  "update_repos srv cm (pre @ post) n tr =
     (case update_repos srv cm pre n tr of
        (Inl e, tr1) \<Rightarrow> (Inl e, tr1)
      | (Inr n1, tr1) \<Rightarrow> update_repos srv cm post n1 tr1)"
proof (induction pre arbitrary: n tr)
  case Nil
  then show ?case by simp
next
  case (Cons r pre)
  show ?case
    using Cons.IH by (cases cm) (simp_all split: sum.split response.split)
qed

lemma delete_repos_check: "delete_repos srv True xs tr = (None, tr)"
  by (induction xs arbitrary: tr) simp_all


lemma unique_inner_dup:
  assumes "dget r1 ''key'' = Some (JStr k1)"
    and "r2 \<in> set rest" and "dget r2 ''key'' = Some (JStr k2)" and "lower k1 = lower k2"
  shows "unique_inner r1 rest \<noteq> None"
  using assms(2)
proof (induction rest)
  case Nil
  then show ?case by simp
next
  case (Cons x rest)
  show ?case
  proof (cases "x = r2")
    case True
    then show ?thesis using assms(1,3,4) by simp
  next
    case False
    then have "unique_inner r1 rest \<noteq> None" using Cons by simp
    then show ?thesis using assms(1)
      by (auto split: option.splits sum.splits)
  qed
qed

lemma unique_outer_dup:
  assumes "i < j" and "j < length D"
    and "dget (D ! i) ''key'' = Some (JStr ki)"
    and "dget (D ! j) ''key'' = Some (JStr kj)"
    and "lower ki = lower kj"
  shows "unique_outer D \<noteq> None"
  using assms
proof (induction D arbitrary: i j)
  case Nil
  then show ?case by simp
next
  case (Cons r rest)
  show ?case
  proof (cases i)
    case 0
    with Cons.prems obtain j' where j': "j = Suc j'" "j' < length rest"
      by (cases j) auto
    then have "rest ! j' \<in> set rest" by simp
    moreover have "dget r ''key'' = Some (JStr ki)" using Cons.prems(3) 0 by simp
    moreover have "dget (rest ! j') ''key'' = Some (JStr kj)" using Cons.prems(4) j' by simp
    ultimately have "unique_inner r rest \<noteq> None"
      using Cons.prems(5) by (metis unique_inner_dup)
    then show ?thesis by (auto split: option.splits)
  next
    case (Suc i')
    with Cons.prems obtain j' where j': "j = Suc j'" "i' < j'" "j' < length rest"
      by (cases j) auto
    have "unique_outer rest \<noteq> None"
      using Cons.IH [OF j'(2) j'(3)] Cons.prems(3,4,5) Suc j'(1) by simp
    then show ?thesis by (auto split: option.splits)
  qed
qed

lemma unique_inner_options:
  assumes "\<exists>k. dget r1 ''key'' = Some (JStr k)"
    and "\<forall>r \<in> set rest. \<exists>k. dget r ''key'' = Some (JStr k)"
  shows "unique_inner r1 rest = None \<or> unique_inner r1 rest = Some (AnsibleOptionsError DuplicateKey)"
proof -
  from assms(1) obtain k1 where k1: "dget r1 ''key'' = Some (JStr k1)" by blast
  show ?thesis using assms(2)
  proof (induction rest)
    case Nil
    then show ?case by simp
  next
    case (Cons x rest)
    then obtain k2 where k2: "dget x ''key'' = Some (JStr k2)" by auto
    have "unique_inner r1 rest = None \<or> unique_inner r1 rest = Some (AnsibleOptionsError DuplicateKey)"
      using Cons by simp
    then show ?case using k1 k2 by (cases "lower k1 = lower k2") simp_all
  qed
qed

lemma unique_outer_options:
  assumes "\<forall>r \<in> set D. \<exists>k. dget r ''key'' = Some (JStr k)"
  shows "unique_outer D = None \<or> unique_outer D = Some (AnsibleOptionsError DuplicateKey)"
  using assms
proof (induction D)
  case Nil
  then show ?case by simp
next
  case (Cons r rest)
  have "unique_inner r rest = None \<or> unique_inner r rest = Some (AnsibleOptionsError DuplicateKey)"
    using Cons.prems by (intro unique_inner_options) auto
  moreover have "unique_outer rest = None \<or> unique_outer rest = Some (AnsibleOptionsError DuplicateKey)"
    using Cons by simp
  ultimately show ?case by auto
qed

lemma check_required_options:
  assumes "\<forall>r \<in> set D. dget r ''key'' \<noteq> None \<and> dget r ''packageType'' \<noteq> None \<and> dget r ''rclass'' \<noteq> None"
  shows "check_required D = None \<or> (\<exists>oe. check_required D = Some (AnsibleOptionsError oe))"
  using assms
proof (induction D)
  case Nil
  then show ?case by simp
next
  case (Cons r D)
  then obtain k pt rc where f: "dget r ''key'' = Some k" "dget r ''packageType'' = Some pt"
      "dget r ''rclass'' = Some rc"
    by auto
  have ih: "check_required D = None \<or> (\<exists>oe. check_required D = Some (AnsibleOptionsError oe))"
    using Cons by simp
  show ?case
    using f ih by (cases "k = JNull"; cases "pt = JNull"; cases "rc = JNull") simp_all
qed

lemma run_required_error:
  "check_required (repository_configs s) = Some e \<Longrightarrow> run srv cm a s = (Inl e, s)"
  by (simp add: run_def)

lemma run_unique_error:
  "check_required (repository_configs s) = None \<Longrightarrow>
   check_unique (repository_configs s) = Some e \<Longrightarrow> run srv cm a s = (Inl e, s)"
  by (simp add: run_def)

lemma dict_eq_dget: "dict_eq y x \<Longrightarrow> dget y f = dget x f"
  by (simp add: dict_eq_iff dget_def)

lemma dict_eq_lower_key: "dict_eq y x \<Longrightarrow> lower_key y = lower_key x"
  by (simp add: lower_key_def dict_eq_dget)

lemma dget_dset: "dget (dset r k v) f = (if f = k then Some v else dget r f)"
  by (simp add: dget_def dset_def update_conv')

lemma list_remove_Some:
  "list_remove x xs = Some ys \<Longrightarrow> \<exists>pre y post. xs = pre @ y # post \<and> ys = pre @ post \<and> dict_eq y x"
proof (induction xs arbitrary: ys)
  case Nil
  then show ?case by simp
next
  case (Cons z xs)
  show ?case
  proof (cases "dict_eq z x")
    case True
    then have "ys = xs" using Cons.prems by simp
    then have "z # xs = [] @ z # xs \<and> ys = [] @ xs \<and> dict_eq z x" using True by simp
    then show ?thesis by blast
  next
    case False
    then obtain zs where zs: "list_remove x xs = Some zs" "ys = z # zs"
      using Cons.prems by (auto split: option.splits)
    from Cons.IH [OF zs(1)] obtain pre y post where
      "xs = pre @ y # post" "zs = pre @ post" "dict_eq y x" by blast
    then have "z # xs = (z # pre) @ y # post \<and> ys = (z # pre) @ post \<and> dict_eq y x"
      using zs(2) by simp
    then show ?thesis by blast
  qed
qed

lemma list_remove_distinct:
  assumes "list_remove x xs = Some ys" and "lower_key x' = lower_key x"
    and "distinct (map lower_key (xs @ both))"
  shows "distinct (map lower_key (ys @ both @ [x']))"
proof -
  from list_remove_Some [OF assms(1)] obtain pre y post where
    d: "xs = pre @ y # post" "ys = pre @ post" "dict_eq y x" by blast
  have "lower_key y = lower_key x'" using d(3) assms(2) by (simp add: dict_eq_lower_key)
  then show ?thesis using assms(3) d(1,2) by auto
qed

lemma sort_inner_distinct:
  assumes "sort_inner items repo p = (None, repo', p')"
    and "distinct (map lower_key (onlyInArgs p @ inBoth p))"
  shows "distinct (map lower_key (onlyInArgs p' @ inBoth p'))"
  using assms
proof (induction items arbitrary: repo p)
  case Nil
  then show ?case by simp
next
  case (Cons item items)
  from Cons.prems(1) obtain ik where ik: "dget item ''key'' = Some ik"
    by (cases "dget item ''key''") auto
  from Cons.prems(1) ik obtain rk where rk: "dget repo ''key'' = Some rk"
    by (cases "dget repo ''key''") auto
  show ?case
  proof (cases "lower (py_str ik) = lower (py_str rk)")
    case False
    then have "sort_inner items repo p = (None, repo', p')"
      using Cons.prems(1) ik rk by simp
    then show ?thesis using Cons.IH Cons.prems(2) by blast
  next
    case True
    from Cons.prems(1) ik rk True obtain args' where a: "list_remove repo (onlyInArgs p) = Some args'"
      by (cases "list_remove repo (onlyInArgs p)") auto
    from Cons.prems(1) ik rk True a obtain art' where
      b: "list_remove (dset repo ''key'' ik) (onlyInArtifactory p) = Some art'"
      by (cases "list_remove (dset repo ''key'' ik) (onlyInArtifactory p)") auto
    let ?p = "\<lparr>onlyInArgs = args', inBoth = inBoth p @ [dset repo ''key'' ik], onlyInArtifactory = art'\<rparr>"
    have step: "sort_inner items (dset repo ''key'' ik) ?p = (None, repo', p')"
      using Cons.prems(1) ik rk True a b by simp
    have "lower_key (dset repo ''key'' ik) = lower_key repo"
      using rk True by (simp add: lower_key_def dget_dset)
    then have "distinct (map lower_key (args' @ inBoth p @ [dset repo ''key'' ik]))"
      using list_remove_distinct [OF a _ Cons.prems(2)] by simp
    then have "distinct (map lower_key (onlyInArgs ?p @ inBoth ?p))" by simp
    from Cons.IH [OF step this] show ?thesis .
  qed
qed

lemma sort_outer_distinct:
  assumes "sort_outer items done todo p = (None, configs', p')"
    and "distinct (map lower_key (onlyInArgs p @ inBoth p))"
  shows "distinct (map lower_key (onlyInArgs p' @ inBoth p'))"
  using assms
proof (induction todo arbitrary: "done" p)
  case Nil
  then show ?case by simp
next
  case (Cons repo todo)
  obtain e r1 p1 where s: "sort_inner items repo p = (e, r1, p1)"
    by (cases "sort_inner items repo p") auto
  with Cons.prems(1) have e: "e = None" by (cases e) auto
  from s e Cons.prems(1) have o: "sort_outer items (done @ [r1]) todo p1 = (None, configs', p')"
    by simp
  have "distinct (map lower_key (onlyInArgs p1 @ inBoth p1))"
    using sort_inner_distinct s e Cons.prems(2) by blast
  from Cons.IH [OF o this] show ?case .
qed

lemma sort_repos_distinct:
  assumes "sort_repos D A = (None, configs', p)" and "distinct (map lower_key D)"
  shows "distinct (map lower_key (onlyInArgs p @ inBoth p))"
  using sort_outer_distinct [of A "[]" D _ configs' p] assms
  by (simp add: sort_repos_def)

lemma unique_inner_None:
  assumes "unique_inner r1 rest = None"
  shows "lower_key r1 \<notin> set (map lower_key rest)"
  using assms
proof (induction rest)
  case Nil
  then show ?case by simp
next
  case (Cons r2 rest)
  from Cons.prems obtain k1 where k1: "dget r1 ''key'' = Some (JStr k1)"
    by (cases "dget r1 ''key''"; cases "the (dget r1 ''key'')") auto
  from Cons.prems k1 obtain k2 where k2: "dget r2 ''key'' = Some (JStr k2)"
    by (cases "dget r2 ''key''"; cases "the (dget r2 ''key'')") auto
  from Cons.prems k1 k2 have ne: "lower k1 \<noteq> lower k2" and rest: "unique_inner r1 rest = None"
    by (auto split: if_splits)
  have "lower_key r1 \<noteq> lower_key r2" using k1 k2 ne by (simp add: lower_key_def)
  then show ?case using Cons.IH [OF rest] by simp
qed

lemma unique_outer_None: "unique_outer D = None \<Longrightarrow> distinct (map lower_key D)"
proof (induction D)
  case Nil
  then show ?case by simp
next
  case (Cons r D)
  then have "unique_inner r D = None" "unique_outer D = None"
    by (auto split: option.splits)
  then show ?case using Cons.IH unique_inner_None by simp
qed

lemma check_unique_None: "check_unique D = None \<Longrightarrow> distinct (map lower_key D)"
proof (cases "2 \<le> length D")
  case True
  assume "check_unique D = None"
  then show ?thesis using True unique_outer_None by (simp add: check_unique_def)
next
  case False
  then have "length D \<le> 1" by simp
  then show ?thesis by (cases D) auto
qed

lemma update_repos_check_no_mutation:
  "update_repos srv True B n tr = (r, tr') \<Longrightarrow> filter is_mutation tr' = filter is_mutation tr"
proof (induction B arbitrary: n tr)
  case Nil
  then show ?case by simp
next
  case (Cons x B)
  show ?case
  proof (cases "url_key x")
    case (Inl e)
    then show ?thesis using Cons.prems by simp
  next
    case (Inr k)
    show ?thesis
    proof (cases "srv tr (GetRepo k)")
      case (Repo cur)
      then obtain m where "update_repos srv True B m (tr @ [GetRepo k]) = (r, tr')"
        using Cons.prems Inr by (auto split: if_splits)
      from Cons.IH [OF this] show ?thesis by simp
    qed (use Cons.prems Inr in auto)
  qed
qed

lemma reconcile_check_no_mutation:
  "reconcile srv True st p tr = (r, tr') \<Longrightarrow> filter is_mutation tr' = filter is_mutation tr"
proof -
  assume h: "reconcile srv True st p tr = (r, tr')"
  show ?thesis
  proof (cases "(st = ''present'' \<or> st = ''prune'') \<and> inBoth p \<noteq> []")
    case False
    then show ?thesis using h by (auto simp: reconcile_def Let_def delete_repos_check)
  next
    case True
    obtain u tr2 where u: "update_repos srv True (inBoth p) 0 tr = (u, tr2)"
      by (cases "update_repos srv True (inBoth p) 0 tr") auto
    have "tr' = tr2" using h True u
      by (cases u) (auto simp: reconcile_def Let_def delete_repos_check)
    then show ?thesis using update_repos_check_no_mutation [OF u] by simp
  qed
qed

lemma run_check_no_mutation:
  "filter is_mutation (trace (snd (run srv True a s))) = filter is_mutation (trace s)"
proof (cases "check_required (repository_configs s)")
  case (Some e)
  then show ?thesis by (simp add: run_def)
next
  case None
  note cr = this
  show ?thesis
  proof (cases "check_unique (repository_configs s)")
    case (Some e)
    then show ?thesis using cr by (simp add: run_def)
  next
    case None
    note cu = this
    show ?thesis
    proof (cases "check_state (arg_state a)")
      case (Inl e)
      then show ?thesis using cr cu by (simp add: run_def)
    next
      case (Inr st)
      note cs = this
      show ?thesis
      proof (cases "build_uri_params a")
        case (Inl e)
        then show ?thesis using cr cu cs by (simp add: run_def)
      next
        case (Inr up)
        note bu = this
        show ?thesis
        proof (cases "srv (trace s) GetRepos")
          case (Repos A)
          obtain e configs' p where sr: "sort_repos (repository_configs s) A = (e, configs', p)"
            by (cases "sort_repos (repository_configs s) A") auto
          show ?thesis
          proof (cases e)
            case (Some err)
            then show ?thesis using cr cu cs bu Repos sr by (simp add: run_def get_repos_def)
          next
            case None
            obtain r tr' where rc: "reconcile srv True st p (trace s @ [GetRepos]) = (r, tr')"
              by (cases "reconcile srv True st p (trace s @ [GetRepos])") auto
            have "trace (snd (run srv True a s)) = tr'"
              using cr cu cs bu Repos sr None rc by (simp add: run_def get_repos_def)
            then show ?thesis using reconcile_check_no_mutation [OF rc] by simp
          qed
        qed (use cr cu cs bu in \<open>simp_all add: run_def get_repos_def\<close>)
      qed
    qed
  qed
qed

lemma put_repos_None:
  "put_repos srv xs tr = (None, tr') \<Longrightarrow>
     tr' = tr @ map (\<lambda>r. PutRepo (repo_key r) r) xs \<and> (\<forall>r \<in> set xs. url_key r = Inr (repo_key r))"
proof (induction xs arbitrary: tr)
  case Nil
  then show ?case by simp
next
  case (Cons x xs)
  from Cons.prems obtain k where k: "url_key x = Inr k" by (cases "url_key x") auto
  then have rk: "repo_key x = k"
    by (auto simp: url_key_def repo_key_def split: option.splits jval.splits)
  from Cons.prems k have "put_repos srv xs (tr @ [PutRepo k x]) = (None, tr')"
    by (cases "srv tr (PutRepo k x)") auto
  from Cons.IH [OF this] k rk show ?case by simp
qed

lemma url_key_repo_key: "url_key r = Inr k \<Longrightarrow> repo_key r = k"
  by (auto simp: url_key_def repo_key_def split: option.splits jval.splits)

lemma update_repos_Inr_keys:
  "update_repos srv cm B n tr = (Inr u, tr') \<Longrightarrow> \<forall>r \<in> set B. url_key r = Inr (repo_key r)"
proof (induction B arbitrary: n tr)
  case Nil
  then show ?case by simp
next
  case (Cons x B)
  from Cons.prems obtain k where k: "url_key x = Inr k" by (cases "url_key x") auto
  from Cons.prems k obtain cur where cur: "srv tr (GetRepo k) = Repo cur"
    by (cases "srv tr (GetRepo k)") auto
  from Cons.prems k cur obtain m tr1 where "update_repos srv cm B m tr1 = (Inr u, tr')"
    by (cases "srv (tr @ [GetRepo k]) (PostRepo k x)") (auto split: if_splits)
  from Cons.IH [OF this] k url_key_repo_key [OF k] show ?case by simp
qed

lemma update_repos_check_agrees:
  assumes frame: "\<forall>tr k. srv tr (GetRepo k) = srv (filter (mutates k) tr) (GetRepo k)"
    and "distinct (map repo_key B)"
    and "\<forall>r \<in> set B. filter (mutates (repo_key r)) trN = filter (mutates (repo_key r)) trD"
    and "update_repos srv False B n trN = (Inr u, trN')"
  shows "\<exists>trD'. update_repos srv True B n trD = (Inr u, trD')"
  using assms(2-)
proof (induction B arbitrary: n trN trD)
  case Nil
  then show ?case by simp
next
  case (Cons x B)
  from Cons.prems(3) obtain k where k: "url_key x = Inr k" by (cases "url_key x") auto
  have rk: "repo_key x = k" using k by (rule url_key_repo_key)
  from Cons.prems(3) k obtain cur where cur: "srv trN (GetRepo k) = Repo cur"
    by (cases "srv trN (GetRepo k)") auto
  have "srv trD (GetRepo k) = srv (filter (mutates k) trD) (GetRepo k)" using frame by blast
  also have "\<dots> = srv (filter (mutates k) trN) (GetRepo k)" using Cons.prems(2) rk by simp
  also have "\<dots> = srv trN (GetRepo k)" using frame by metis
  finally have curD: "srv trD (GetRepo k) = Repo cur" using cur by simp
  have d: "distinct (map repo_key B)" using Cons.prems(1) by simp
  have "repo_key x \<notin> repo_key ` set B" using Cons.prems(1) by simp
  then have nk: "\<forall>r \<in> set B. repo_key r \<noteq> k" using rk by (metis imageI)
  show ?case
  proof (cases "dict_eq (dict_update cur x) cur")
    case True
    then have stepN: "update_repos srv False B n (trN @ [GetRepo k]) = (Inr u, trN')"
      using Cons.prems(3) k cur by simp
    have agree: "\<forall>r \<in> set B. filter (mutates (repo_key r)) (trN @ [GetRepo k])
        = filter (mutates (repo_key r)) (trD @ [GetRepo k])"
      using Cons.prems(2) by simp
    from Cons.IH [OF d agree stepN] obtain trD' where
      "update_repos srv True B n (trD @ [GetRepo k]) = (Inr u, trD')" by blast
    then show ?thesis using k curD True by simp
  next
    case False
    then have stepN: "update_repos srv False B (n + 1) (trN @ [GetRepo k, PostRepo k x]) = (Inr u, trN')"
      using Cons.prems(3) k cur
      by (cases "srv (trN @ [GetRepo k]) (PostRepo k x)") auto
    have agree: "\<forall>r \<in> set B. filter (mutates (repo_key r)) (trN @ [GetRepo k, PostRepo k x])
        = filter (mutates (repo_key r)) (trD @ [GetRepo k])"
      using Cons.prems(2) nk by auto
    from Cons.IH [OF d agree stepN] obtain trD' where
      "update_repos srv True B (n + 1) (trD @ [GetRepo k]) = (Inr u, trD')" by blast
    then show ?thesis using k curD False by simp
  qed
qed

lemma url_key_lower_key: "url_key r = Inr k \<Longrightarrow> lower_key r = Some (lower k)"
  by (auto simp: url_key_def lower_key_def split: option.splits jval.splits)

lemma distinct_repo_key:
  assumes "\<forall>r \<in> set xs. url_key r = Inr (repo_key r)" and "distinct (map lower_key xs)"
  shows "distinct (map repo_key xs)"
  using assms
proof (induction xs)
  case Nil
  then show ?case by simp
next
  case (Cons x xs)
  have "repo_key x \<notin> repo_key ` set xs"
  proof
    assume "repo_key x \<in> repo_key ` set xs"
    then obtain y where y: "y \<in> set xs" "repo_key y = repo_key x" by auto
    have "lower_key y = Some (lower (repo_key y))" using Cons.prems(1) y(1) url_key_lower_key by simp
    moreover have "lower_key x = Some (lower (repo_key x))" using Cons.prems(1) url_key_lower_key by simp
    ultimately have "lower_key x = lower_key y" using y(2) by simp
    then have "lower_key x \<in> lower_key ` set xs" using y(1) by (metis imageI)
    then show False using Cons.prems(2) by simp
  qed
  then show ?case using Cons by simp
qed

lemma filter_mutates_puts:
  "k \<notin> repo_key ` set xs \<Longrightarrow>
     filter (mutates k) (tr @ map (\<lambda>r. PutRepo (repo_key r) r) xs) = filter (mutates k) tr"
  by (induction xs) auto

lemma reconcile_check_agrees:
  assumes frame: "\<forall>tr k. srv tr (GetRepo k) = srv (filter (mutates k) tr) (GetRepo k)"
    and dist: "distinct (map lower_key (onlyInArgs p @ inBoth p))"
    and nd: "reconcile srv False st p tr = (Inr res, trN)"
  shows "\<exists>trD. reconcile srv True st p tr = (Inr res, trD)"
proof (cases "st = ''present'' \<or> st = ''prune''")
  case False
  then show ?thesis using nd
    by (auto simp: reconcile_def Let_def delete_repos_check split: option.splits prod.splits)
next
  case True
  define added where "added = (if onlyInArgs p \<noteq> [] then length (onlyInArgs p) else 0)"
  define toRemove where "toRemove = (if st = ''prune'' \<and> onlyInArtifactory p \<noteq> []
      then onlyInArtifactory p else if st = ''absent'' \<and> inBoth p \<noteq> [] then inBoth p else [])"
  obtain e1 tr1 where put: "(if onlyInArgs p \<noteq> [] then put_repos srv (onlyInArgs p) tr else (None, tr)) = (e1, tr1)"
    by (cases "if onlyInArgs p \<noteq> [] then put_repos srv (onlyInArgs p) tr else (None, tr)") auto
  have e1: "e1 = None" using nd True put by (cases e1) (auto simp: reconcile_def Let_def)
  have put': "put_repos srv (onlyInArgs p) tr = (None, tr1)"
    using put e1 by (cases "onlyInArgs p = []") auto
  obtain r2 tr2 where upd: "(if inBoth p \<noteq> [] then update_repos srv False (inBoth p) 0 tr1 else (Inr 0, tr1)) = (r2, tr2)"
    by (cases "if inBoth p \<noteq> [] then update_repos srv False (inBoth p) 0 tr1 else (Inr 0, tr1)") auto
  obtain u where u: "r2 = Inr u" using nd True put e1 upd
    by (cases r2) (auto simp: reconcile_def Let_def)
  have upd': "update_repos srv False (inBoth p) 0 tr1 = (Inr u, tr2)"
    using upd u by (cases "inBoth p = []") auto
  have res: "res = \<lparr>changed = (added + u + length toRemove \<noteq> 0), addedRepos = added,
                    updatedRepos = u, deletedRepos = length toRemove\<rparr>"
    using nd True put e1 upd u
    by (auto simp: reconcile_def Let_def added_def toRemove_def split: option.splits prod.splits if_splits)
  have tr1: "tr1 = tr @ map (\<lambda>r. PutRepo (repo_key r) r) (onlyInArgs p)"
    and ka: "\<forall>r \<in> set (onlyInArgs p). url_key r = Inr (repo_key r)"
    using put_repos_None [OF put'] by simp_all
  have kb: "\<forall>r \<in> set (inBoth p). url_key r = Inr (repo_key r)"
    using update_repos_Inr_keys [OF upd'] .
  have "\<forall>r \<in> set (onlyInArgs p @ inBoth p). url_key r = Inr (repo_key r)" using ka kb by auto
  then have dk: "distinct (map repo_key (onlyInArgs p @ inBoth p))"
    using dist by (rule distinct_repo_key)
  then have db: "distinct (map repo_key (inBoth p))" by simp
  have "\<forall>r \<in> set (inBoth p). repo_key r \<notin> repo_key ` set (onlyInArgs p)"
    using dk by auto
  then have agree: "\<forall>r \<in> set (inBoth p). filter (mutates (repo_key r)) tr1 = filter (mutates (repo_key r)) tr"
    using tr1 filter_mutates_puts by simp
  from update_repos_check_agrees [OF frame db agree upd'] obtain trD where
    updD: "update_repos srv True (inBoth p) 0 tr = (Inr u, trD)" by blast
  have updD': "(if inBoth p \<noteq> [] then update_repos srv True (inBoth p) 0 tr else (Inr 0, tr)) = (Inr u, trD)"
    using updD by (cases "inBoth p = []") auto
  have "reconcile srv True st p tr = (Inr res, trD)"
    using True updD' res
    by (simp add: reconcile_def Let_def added_def toRemove_def delete_repos_check)
  then show ?thesis by blast
qed

lemma same_but_key_case_refl: "same_but_key_case d d"
  by (simp add: same_but_key_case_def)

lemma same_but_key_case_dget:
  assumes "same_but_key_case d d'" and "f \<noteq> ''key''"
  shows "dget d' f = dget d f"
proof -
  have "map_of (AList.delete ''key'' d') f = map_of (AList.delete ''key'' d) f"
    using assms(1) by (simp add: same_but_key_case_def)
  then show ?thesis using assms(2) by (simp add: dget_def delete_conv)
qed

lemma sort_inner_same_but_key_case:
  "sort_inner items repo p = (e, repo', p') \<Longrightarrow> same_but_key_case repo repo'"
proof (induction items arbitrary: repo p)
  case Nil
  then show ?case by (simp add: same_but_key_case_refl)
next
  case (Cons item items)
  show ?case
  proof (cases "dget item ''key''")
    case None
    then show ?thesis using Cons.prems by (simp add: same_but_key_case_refl)
  next
    case (Some ik)
    note ik = this
    show ?thesis
    proof (cases "dget repo ''key''")
      case None
      then show ?thesis using Cons.prems ik by (simp add: same_but_key_case_refl)
    next
      case (Some rk)
      note rk = this
      show ?thesis
      proof (cases "lower (py_str ik) = lower (py_str rk)")
        case False
        then have "sort_inner items repo p = (e, repo', p')" using Cons.prems ik rk by simp
        then show ?thesis by (rule Cons.IH)
      next
        case True
        have v1: "lower_key (dset repo ''key'' ik) = lower_key repo"
          using rk True by (simp add: lower_key_def dget_dset)
        have v2: "AList.delete ''key'' (dset repo ''key'' ik) = AList.delete ''key'' repo"
          by (simp add: dset_def delete_update_same)
        have v: "same_but_key_case repo (dset repo ''key'' ik)"
          using v1 v2 by (simp add: same_but_key_case_def)
        show ?thesis
        proof (cases "list_remove repo (onlyInArgs p)")
          case None
          then show ?thesis using Cons.prems ik rk True by (simp add: same_but_key_case_refl)
        next
          case (Some args')
          note a = this
          show ?thesis
          proof (cases "list_remove (dset repo ''key'' ik) (onlyInArtifactory p)")
            case None
            then have "repo' = dset repo ''key'' ik" using Cons.prems ik rk True a by simp
            then show ?thesis using v by simp
          next
            case (Some art')
            then have "sort_inner items (dset repo ''key'' ik)
                \<lparr>onlyInArgs = args', inBoth = inBoth p @ [dset repo ''key'' ik],
                 onlyInArtifactory = art'\<rparr> = (e, repo', p')"
              using Cons.prems ik rk True a by simp
            then have "same_but_key_case (dset repo ''key'' ik) repo'" by (rule Cons.IH)
            then show ?thesis using v by (simp add: same_but_key_case_def)
          qed
        qed
      qed
    qed
  qed
qed

lemma sort_outer_same_but_key_case:
  "sort_outer items done todo p = (e, configs', p') \<Longrightarrow>
     \<exists>todo'. configs' = done @ todo' \<and> list_all2 same_but_key_case todo todo'"
proof (induction todo arbitrary: "done" p)
  case Nil
  then show ?case by simp
next
  case (Cons repo todo)
  obtain e1 r1 p1 where s: "sort_inner items repo p = (e1, r1, p1)"
    by (cases "sort_inner items repo p") auto
  have v: "same_but_key_case repo r1" using s by (rule sort_inner_same_but_key_case)
  show ?case
  proof (cases e1)
    case (Some err)
    then have "configs' = done @ r1 # todo" using Cons.prems s by simp
    moreover have "list_all2 same_but_key_case (repo # todo) (r1 # todo)"
      using v by (simp add: list_all2_refl same_but_key_case_refl)
    ultimately show ?thesis by blast
  next
    case None
    then have "sort_outer items (done @ [r1]) todo p1 = (e, configs', p')"
      using Cons.prems s by simp
    from Cons.IH [OF this] obtain todo' where
      t: "configs' = (done @ [r1]) @ todo'" "list_all2 same_but_key_case todo todo'" by blast
    then have "configs' = done @ (r1 # todo') \<and> list_all2 same_but_key_case (repo # todo) (r1 # todo')"
      using v by simp
    then show ?thesis by blast
  qed
qed

lemma sort_repos_same_but_key_case:
  "sort_repos D A = (e, configs', p) \<Longrightarrow> list_all2 same_but_key_case D configs'"
  using sort_outer_same_but_key_case [of A "[]" D _ e configs' p]
  by (auto simp: sort_repos_def)

lemma run_configs:
  "repository_configs (snd (run srv cm a s)) = repository_configs s
   \<or> (\<exists>A e p. sort_repos (repository_configs s) A = (e, repository_configs (snd (run srv cm a s)), p))"
proof (cases "check_required (repository_configs s)")
  case (Some e)
  then show ?thesis by (simp add: run_def)
next
  case None
  note cr = this
  show ?thesis
  proof (cases "check_unique (repository_configs s)")
    case (Some e)
    then show ?thesis using cr by (simp add: run_def)
  next
    case None
    note cu = this
    show ?thesis
    proof (cases "check_state (arg_state a)")
      case (Inl e)
      then show ?thesis using cr cu by (simp add: run_def)
    next
      case (Inr st)
      note cs = this
      show ?thesis
      proof (cases "build_uri_params a")
        case (Inl e)
        then show ?thesis using cr cu cs by (simp add: run_def)
      next
        case (Inr up)
        note bu = this
        show ?thesis
        proof (cases "srv (trace s) GetRepos")
          case (Repos A)
          obtain e configs' p where sr: "sort_repos (repository_configs s) A = (e, configs', p)"
            by (cases "sort_repos (repository_configs s) A") auto
          obtain r tr' where rc: "reconcile srv cm st p (trace s @ [GetRepos]) = (r, tr')"
            by (cases "reconcile srv cm st p (trace s @ [GetRepos])") auto
          have "repository_configs (snd (run srv cm a s)) = configs'"
            using cr cu cs bu Repos sr rc by (cases e) (simp_all add: run_def get_repos_def)
          then show ?thesis using sr by blast
        qed (use cr cu cs bu in \<open>simp_all add: run_def get_repos_def\<close>)
      qed
    qed
  qed
qed

text \<open>What the update batch does with one record that it reaches.\<close>

lemma update_iff_future_differs:
  assumes "update_repos srv False pre n tr = (Inr n1, tr1)"
    and "dget r ''key'' = Some (JStr k)"
    and "srv tr1 (GetRepo k) = Repo cur"
    and "srv (tr1 @ [GetRepo k]) (PostRepo k r) \<noteq> Failed"
  shows "update_repos srv False (pre @ r # post) n tr =
           (if map_of cur ++ map_of r = map_of cur
            then update_repos srv False post n1 (tr1 @ [GetRepo k])
            else update_repos srv False post (n1 + 1) (tr1 @ [GetRepo k, PostRepo k r]))"
proof -
  have k: "url_key r = Inr k" using assms(2) by (rule url_key_str)
  have e: "dict_eq (dict_update cur r) cur \<longleftrightarrow> map_of cur ++ map_of r = map_of cur"
    by (simp add: dict_eq_iff map_of_dict_update)
  have "update_repos srv False (pre @ r # post) n tr = update_repos srv False (r # post) n1 tr1"
    using assms(1) by (simp add: update_repos_append)
  also have "\<dots> = (if map_of cur ++ map_of r = map_of cur
            then update_repos srv False post n1 (tr1 @ [GetRepo k])
            else update_repos srv False post (n1 + 1) (tr1 @ [GetRepo k, PostRepo k r]))"
    using k assms(3) assms(4) e by (simp split: response.split)
  finally show ?thesis .
qed

text \<open>What the validation does with two keys that are equal in lower case.\<close>

lemma duplicate_keys_rejected:
  assumes "i < j" and "j < length (repository_configs s)"
    and "dget (repository_configs s ! i) ''key'' = Some (JStr ki)"
    and "dget (repository_configs s ! j) ''key'' = Some (JStr kj)"
    and "lower ki = lower kj"
  shows "(\<exists>e. run srv check_mode a s = (Inl e, s)) \<and>
         ((\<forall>r \<in> set (repository_configs s).
              (\<exists>k. dget r ''key'' = Some (JStr k)) \<and> dget r ''packageType'' \<noteq> None
              \<and> dget r ''rclass'' \<noteq> None)
          \<longrightarrow> (\<exists>oe. run srv check_mode a s = (Inl (AnsibleOptionsError oe), s)))"
proof -
  have len: "2 \<le> length (repository_configs s)" using assms(1,2) by simp
  have u: "unique_outer (repository_configs s) \<noteq> None"
    using assms by (rule unique_outer_dup)
  then obtain e where e: "check_unique (repository_configs s) = Some e"
    using len by (auto simp: check_unique_def)
  have 1: "\<exists>e. run srv check_mode a s = (Inl e, s)"
  proof (cases "check_required (repository_configs s)")
    case None
    then show ?thesis using e run_unique_error by blast
  next
    case (Some e')
    then show ?thesis using run_required_error by blast
  qed
  have 2: "\<exists>oe. run srv check_mode a s = (Inl (AnsibleOptionsError oe), s)"
    if wf: "\<forall>r \<in> set (repository_configs s).
              (\<exists>k. dget r ''key'' = Some (JStr k)) \<and> dget r ''packageType'' \<noteq> None
              \<and> dget r ''rclass'' \<noteq> None"
  proof -
    have ks: "\<forall>r \<in> set (repository_configs s). \<exists>k. dget r ''key'' = Some (JStr k)"
      using wf by blast
    have "unique_outer (repository_configs s) = None
        \<or> unique_outer (repository_configs s) = Some (AnsibleOptionsError DuplicateKey)"
      using ks by (rule unique_outer_options)
    then have "unique_outer (repository_configs s) = Some (AnsibleOptionsError DuplicateKey)"
      using u by simp
    then have cu: "check_unique (repository_configs s) = Some (AnsibleOptionsError DuplicateKey)"
      using len by (simp add: check_unique_def)
    have "\<forall>r \<in> set (repository_configs s). dget r ''key'' \<noteq> None \<and> dget r ''packageType'' \<noteq> None \<and> dget r ''rclass'' \<noteq> None"
      using wf by fastforce
    then have "check_required (repository_configs s) = None
        \<or> (\<exists>oe. check_required (repository_configs s) = Some (AnsibleOptionsError oe))"
      by (rule check_required_options)
    then show ?thesis
    proof
      assume "check_required (repository_configs s) = None"
      then show ?thesis using cu run_unique_error by blast
    next
      assume "\<exists>oe. check_required (repository_configs s) = Some (AnsibleOptionsError oe)"
      then show ?thesis using run_required_error by blast
    qed
  qed
  show ?thesis using 1 2 by blast
qed

subsection \<open>The claims\<close>

text \<open>
  C5. The claim asks that certificate validation be the negation of the ignore-CA flag
  and on by default. Evaluated at the default flag, for a client built with an access
  token, the request that \<^verbatim>\<open>_sendRequest\<close> builds has certificate validation switched
  off: the flag itself is passed as \<^verbatim>\<open>validate_certs\<close>.
\<close>

theorem sendRequest_default_skips_validation:
  "map_sum id (\<lambda>self. validate_certs (sendRequest_request self urltail method content))
     (api_init url ''accesstoken'' token default_ignore_ca_error False) = Inr False"
  by (simp add: api_init_def default_ignore_ca_error_def sendRequest_request_def)

text \<open>
  C1. The claim asks for a partition of every desired and actual list. For the desired
  list holding \<open>repo_r1\<close> and an actual list holding the server's entry for the same key,
  the partition loop stops with \<^verbatim>\<open>ValueError\<close>: it removes the desired record, not the
  matching item, from \<^verbatim>\<open>onlyInArtifactory\<close>.
\<close>

theorem sort_repos_matching_key_raises:
  "sort_repos
     [[(''key'', JStr ''r1''), (''rclass'', JStr ''local''), (''packageType'', JStr ''maven'')]]
     [[(''key'', JStr ''r1''), (''type'', JStr ''LOCAL'')]]
   = (Some ValueError,
      [[(''key'', JStr ''r1''), (''rclass'', JStr ''local''), (''packageType'', JStr ''maven'')]],
      \<lparr>onlyInArgs = [],
       inBoth = [[(''key'', JStr ''r1''), (''rclass'', JStr ''local''), (''packageType'', JStr ''maven'')]],
       onlyInArtifactory = [[(''key'', JStr ''r1''), (''type'', JStr ''LOCAL'')]]\<rparr>)"
  by code_simp

text \<open>
  C6. The claim asks that the three operations return normally when every adapter call
  succeeds. With one desired LDAP setting and an adapter whose calls all succeed, each
  of \<^verbatim>\<open>applyConfigs\<close>, \<^verbatim>\<open>deleteConfigs\<close> and \<^verbatim>\<open>pruneConfigs\<close> raises \<^verbatim>\<open>TypeError\<close>:
  \<^verbatim>\<open>self.configs\<close> is one \<^verbatim>\<open>ConfigRecord\<close>, over which \<^verbatim>\<open>_sortConfigs\<close> cannot iterate.
\<close>

theorem api_operations_raise_TypeError:
  "fst (applyConfigs succeeding_adapter [[(''key'', JStr ''myconnection'')]] (ConfigList [], []))
     = Inl TypeError
   \<and> fst (deleteConfigs succeeding_adapter [[(''key'', JStr ''myconnection'')]] (ConfigList [], []))
     = Inl TypeError
   \<and> fst (pruneConfigs succeeding_adapter [[(''key'', JStr ''myconnection'')]] (ConfigList [], []))
     = Inl TypeError"
  by (simp add: applyConfigs_def deleteConfigs_def pruneConfigs_def succeeding_adapter_def
      set_configs_def sortConfigs_def)

text \<open>
  C8. The claim asks that a second \<^verbatim>\<open>Present\<close> run with the same desired list report no
  change. Against a server that lists a repository by key and type, the first run
  creates \<open>repo_r1\<close>; the second run, on the state the first one left, stops in the
  partition with \<^verbatim>\<open>ValueError\<close> and reports nothing.
\<close>

theorem second_present_run_raises:
  "fst (run listing_server False present_args \<lparr>repository_configs = [repo_r1], trace = []\<rparr>)
     = Inr \<lparr>changed = True, addedRepos = 1, updatedRepos = 0, deletedRepos = 0\<rparr>
   \<and> fst (run listing_server False present_args
            (snd (run listing_server False present_args
                    \<lparr>repository_configs = [repo_r1], trace = []\<rparr>)))
     = Inl ValueError"
  by code_simp

text \<open>
  C2. The claim asks that every record of \<^verbatim>\<open>inBoth\<close> be read, merged and, when the merge
  differs from the actual record in any field, updated. A \<^verbatim>\<open>Present\<close> run with \<open>repo_r1_npm\<close>
  desired, against a server that holds \<open>repo_r1\<close> under the same key, puts the record into
  \<^verbatim>\<open>inBoth\<close> and stops with \<^verbatim>\<open>ValueError\<close> after the listing: the record is neither read
  nor updated. In the API client, \<^verbatim>\<open>deepEquals\<close> on two settings that differ in
  \<^verbatim>\<open>enabled\<close> raises \<^verbatim>\<open>AttributeError\<close>, and its loop, which compares the entry \<^verbatim>\<open>'key'\<close>
  alone, finds them equal.
\<close>

theorem differing_record_not_updated:
  "run (static_server [repo_r1]) False present_args
       \<lparr>repository_configs = [repo_r1_npm], trace = []\<rparr>
     = (Inl ValueError, \<lparr>repository_configs = [repo_r1_npm], trace = [GetRepos]\<rparr>)
   \<and> map_of repo_r1 ++ map_of repo_r1_npm \<noteq> map_of repo_r1
   \<and> deepEquals ldap_disabled ldap_enabled = Inl AttributeError
   \<and> deepEquals_loop (map fst ldap_disabled) ldap_disabled ldap_enabled = Inr True"
proof -
  have 1: "run (static_server [repo_r1]) False present_args
       \<lparr>repository_configs = [repo_r1_npm], trace = []\<rparr>
     = (Inl ValueError, \<lparr>repository_configs = [repo_r1_npm], trace = [GetRepos]\<rparr>)"
    by code_simp
  have 2: "map_of repo_r1 ++ map_of repo_r1_npm \<noteq> map_of repo_r1"
  proof
    assume "map_of repo_r1 ++ map_of repo_r1_npm = map_of repo_r1"
    then have "(map_of repo_r1 ++ map_of repo_r1_npm) ''packageType'' = map_of repo_r1 ''packageType''"
      by simp
    then show False by (simp add: repo_r1_def repo_r1_npm_def map_add_def)
  qed
  have 3: "deepEquals ldap_disabled ldap_enabled = Inl AttributeError"
    by (simp add: deepEquals_def ConfigRecord_isinstance_def)
  have 4: "deepEquals_loop (map fst ldap_disabled) ldap_disabled ldap_enabled = Inr True"
    by (simp add: ldap_disabled_def ldap_enabled_def dget_def)
  show ?thesis using 1 2 3 4 by blast
qed

text \<open>
  C4. A run outside check mode with the state \<^verbatim>\<open>Prune\<close> and an empty desired list, against
  a server that lists the non-empty \<open>A\<close> and refuses no deletion, issues after the listing
  one delete call for every record of \<open>A\<close>, and returns \<^verbatim>\<open>changed\<close> with the deleted count
  \<open>length A\<close>.
\<close>

theorem prune_empty_desired_deletes_all:
  assumes "check_state (arg_state a) = Inr ''prune''"
    and "build_uri_params a = Inr up"
    and "repository_configs s = []"
    and "srv (trace s) GetRepos = Repos A"
    and "A \<noteq> []"
    and "\<forall>r \<in> set A. dget r ''key'' = Some (JStr (repo_key r))"
    and "\<forall>tr k. srv tr (DeleteRepo k) \<noteq> Failed"
  shows "run srv False a s =
           (Inr \<lparr>changed = True, addedRepos = 0, updatedRepos = 0, deletedRepos = length A\<rparr>,
            s\<lparr>trace := trace s @ GetRepos # map (\<lambda>r. DeleteRepo (repo_key r)) A\<rparr>)"
proof -
  have d: "delete_repos srv False A (trace s @ [GetRepos]) =
      (None, (trace s @ [GetRepos]) @ map (\<lambda>r. DeleteRepo (repo_key r)) A)"
    using delete_repos_all [OF assms(6) assms(7)] .
  have rec: "reconcile srv False ''prune'' \<lparr>onlyInArgs = [], inBoth = [], onlyInArtifactory = A\<rparr>
      (trace s @ [GetRepos]) =
      (Inr \<lparr>changed = True, addedRepos = 0, updatedRepos = 0, deletedRepos = length A\<rparr>,
       trace s @ GetRepos # map (\<lambda>r. DeleteRepo (repo_key r)) A)"
    using d assms(5) by (simp add: reconcile_def)
  show ?thesis
    using assms(1-4) rec
    by (simp add: run_def check_unique_def get_repos_def sort_repos_empty)
qed

theorem prune_empty_desired_deletes_all_witness:
  "check_state (arg_state prune_args) = Inr ''prune''
   \<and> build_uri_params prune_args = Inr \<lparr>up_headers = XJFrogArtApi ''secret'', up_validate_certs = None, up_warning = None\<rparr>
   \<and> [repo_old] \<noteq> []
   \<and> run (static_server [repo_old]) False prune_args \<lparr>repository_configs = [], trace = []\<rparr> =
       (Inr \<lparr>changed = True, addedRepos = 0, updatedRepos = 0, deletedRepos = 1\<rparr>,
        \<lparr>repository_configs = [], trace = [GetRepos, DeleteRepo ''old'']\<rparr>)"
proof -
  have h1: "check_state (arg_state prune_args) = Inr ''prune''" by code_simp
  have h2: "build_uri_params prune_args = Inr \<lparr>up_headers = XJFrogArtApi ''secret'', up_validate_certs = None, up_warning = None\<rparr>"
    by code_simp
  have h3: "repository_configs \<lparr>repository_configs = [], trace = []\<rparr> = []" by simp
  have h4: "static_server [repo_old] (trace \<lparr>repository_configs = [], trace = []\<rparr>) GetRepos = Repos [repo_old]"
    by (simp add: static_server_def)
  have h5: "[repo_old] \<noteq> []" by simp
  have h6: "\<forall>r \<in> set [repo_old]. dget r ''key'' = Some (JStr (repo_key r))"
    by (simp add: repo_old_def dget_def repo_key_def)
  have h7: "\<forall>tr k. static_server [repo_old] tr (DeleteRepo k) \<noteq> Failed"
    by (simp add: static_server_def)
  have k: "repo_key repo_old = ''old''" by (simp add: repo_old_def dget_def repo_key_def)
  show ?thesis
    using prune_empty_desired_deletes_all [OF h1 h2 h3 h4 h5 h6 h7] h1 h2 k by simp
qed

text \<open>
  C7. The claim asks for a validation error whatever the other fields of the records.
  For the desired list of two records that hold the keys \<^verbatim>\<open>Foo\<close> and \<^verbatim>\<open>foo\<close> and nothing
  else, the run raises \<^verbatim>\<open>KeyError\<close> before any call: the test
  \<^verbatim>\<open>repo['packageType'] is None\<close> of the required fields reads a field that is not there.
\<close>

theorem duplicate_keys_without_fields_raise_KeyError:
  "run listing_server False present_args
       \<lparr>repository_configs = [[(''key'', JStr ''Foo'')], [(''key'', JStr ''foo'')]], trace = []\<rparr>
     = (Inl KeyError,
        \<lparr>repository_configs = [[(''key'', JStr ''Foo'')], [(''key'', JStr ''foo'')]], trace = []\<rparr>)"
  by code_simp



text \<open>
  C3. A run in check mode leaves the calls that create, update or delete as they were
  before it: it issues none. When the server answers the read of one repository from the
  earlier calls that changed that repository alone, and the run outside check mode returns
  a result, the run in check mode from the same state returns the same result: the same
  flag \<^verbatim>\<open>changed\<close> and the same three counts.
\<close>

theorem check_mode_same_result_no_mutation:
  "filter is_mutation (trace (snd (run srv True a s))) = filter is_mutation (trace s)
   \<and> ((\<forall>tr k. srv tr (GetRepo k) = srv (filter (mutates k) tr) (GetRepo k))
        \<and> fst (run srv False a s) = Inr res
      \<longrightarrow> fst (run srv True a s) = Inr res)"
proof -
  have "fst (run srv True a s) = Inr res"
    if frame: "\<forall>tr k. srv tr (GetRepo k) = srv (filter (mutates k) tr) (GetRepo k)"
      and nd: "fst (run srv False a s) = Inr res"
  proof -
    have cr: "check_required (repository_configs s) = None"
      using nd by (cases "check_required (repository_configs s)") (auto simp: run_def)
    have cu: "check_unique (repository_configs s) = None"
      using nd cr by (cases "check_unique (repository_configs s)") (auto simp: run_def)
    obtain st where cs: "check_state (arg_state a) = Inr st"
      using nd cr cu by (cases "check_state (arg_state a)") (auto simp: run_def)
    obtain up where bu: "build_uri_params a = Inr up"
      using nd cr cu cs by (cases "build_uri_params a") (auto simp: run_def)
    obtain A where ga: "srv (trace s) GetRepos = Repos A"
      using nd cr cu cs bu by (cases "srv (trace s) GetRepos") (auto simp: run_def get_repos_def)
    obtain e configs' p where sr: "sort_repos (repository_configs s) A = (e, configs', p)"
      by (cases "sort_repos (repository_configs s) A") auto
    have e: "e = None" using nd cr cu cs bu ga sr by (cases e) (auto simp: run_def get_repos_def)
    obtain r trN where rn: "reconcile srv False st p (trace s @ [GetRepos]) = (r, trN)"
      by (cases "reconcile srv False st p (trace s @ [GetRepos])") auto
    have r: "r = Inr res" using nd cr cu cs bu ga sr e rn by (simp add: run_def get_repos_def)
    have "distinct (map lower_key (repository_configs s))" using cu by (rule check_unique_None)
    then have dist: "distinct (map lower_key (onlyInArgs p @ inBoth p))"
      using sr e sort_repos_distinct by blast
    from reconcile_check_agrees [OF frame dist] rn r obtain trD where
      "reconcile srv True st p (trace s @ [GetRepos]) = (Inr res, trD)" by blast
    then show ?thesis using cr cu cs bu ga sr e by (simp add: run_def get_repos_def)
  qed
  then show ?thesis using run_check_no_mutation by blast
qed

theorem check_mode_same_result_no_mutation_witness:
  "(\<forall>tr k. drifted_server tr (GetRepo k) = drifted_server (filter (mutates k) tr) (GetRepo k))
   \<and> fst (run drifted_server False present_args \<lparr>repository_configs = [repo_r1, repo_old], trace = []\<rparr>)
       = Inr \<lparr>changed = True, addedRepos = 1, updatedRepos = 1, deletedRepos = 0\<rparr>
   \<and> fst (run drifted_server True present_args \<lparr>repository_configs = [repo_r1, repo_old], trace = []\<rparr>)
       = Inr \<lparr>changed = True, addedRepos = 1, updatedRepos = 1, deletedRepos = 0\<rparr>
   \<and> filter is_mutation
        (trace (snd (run drifted_server True present_args
                       \<lparr>repository_configs = [repo_r1, repo_old], trace = []\<rparr>))) = []"
proof -
  have h1: "\<forall>tr k. drifted_server tr (GetRepo k) = drifted_server (filter (mutates k) tr) (GetRepo k)"
    by (simp add: drifted_server_def)
  have h2: "fst (run drifted_server False present_args \<lparr>repository_configs = [repo_r1, repo_old], trace = []\<rparr>)
       = Inr \<lparr>changed = True, addedRepos = 1, updatedRepos = 1, deletedRepos = 0\<rparr>"
    by code_simp
  show ?thesis
    using check_mode_same_result_no_mutation
      [of drifted_server present_args "\<lparr>repository_configs = [repo_r1, repo_old], trace = []\<rparr>"
          "\<lparr>changed = True, addedRepos = 1, updatedRepos = 1, deletedRepos = 0\<rparr>"]
      h1 h2
    by simp
qed

text \<open>
  C9. The claim asks that no step write into a desired record. A \<^verbatim>\<open>Present\<close> run with
  the desired key \<^verbatim>\<open>r1\<close> against a server that holds \<^verbatim>\<open>R1\<close> leaves the caller's list
  changed: the partition has overwritten the key with the server's spelling.
\<close>

theorem run_overwrites_desired_key:
  "repository_configs
     (snd (run (static_server [repo_R1]) False present_args
             \<lparr>repository_configs = [repo_r1], trace = []\<rparr>)) \<noteq> [repo_r1]"
  by code_simp

text \<open>
  C9, as amended. After a run, whether it returns or raises, the caller's list has the
  length it had, every field other than \<^verbatim>\<open>key\<close> of every desired record has the value
  it had, and the key of every desired record is the key it had up to letter case.
\<close>

theorem run_keeps_desired_up_to_key_case:
  "length (repository_configs (snd (run srv cm a s))) = length (repository_configs s)
   \<and> (\<forall>i < length (repository_configs s).
        (\<forall>f. f \<noteq> ''key'' \<longrightarrow>
           dget (repository_configs (snd (run srv cm a s)) ! i) f = dget (repository_configs s ! i) f)
        \<and> map_option (\<lambda>v. lower (py_str v)) (dget (repository_configs (snd (run srv cm a s)) ! i) ''key'')
          = map_option (\<lambda>v. lower (py_str v)) (dget (repository_configs s ! i) ''key''))"
proof -
  have "list_all2 same_but_key_case (repository_configs s) (repository_configs (snd (run srv cm a s)))"
    using run_configs [of srv cm a s] sort_repos_same_but_key_case
    by (auto simp: list_all2_refl same_but_key_case_refl)
  then show ?thesis
    by (auto simp: list_all2_conv_all_nth same_but_key_case_dget)
       (simp add: same_but_key_case_def lower_key_def)
qed

theorem run_keeps_desired_up_to_key_case_witness:
  "repository_configs
     (snd (run (static_server [repo_R1]) False present_args
             \<lparr>repository_configs = [repo_r1], trace = []\<rparr>)) = [repo_R1]
   \<and> (0::nat) < length [repo_r1]
   \<and> ''rclass'' \<noteq> ''key''
   \<and> dget ([repo_R1] ! 0) ''rclass'' = dget ([repo_r1] ! 0) ''rclass''
   \<and> map_option (\<lambda>v. lower (py_str v)) (dget ([repo_R1] ! 0) ''key'')
       = map_option (\<lambda>v. lower (py_str v)) (dget ([repo_r1] ! 0) ''key'')"
proof -
  let ?s = "\<lparr>repository_configs = [repo_r1], trace = []\<rparr>"
  have e: "repository_configs (snd (run (static_server [repo_R1]) False present_args ?s)) = [repo_R1]"
    by code_simp
  have "\<forall>i < length (repository_configs ?s).
        (\<forall>f. f \<noteq> ''key'' \<longrightarrow>
           dget (repository_configs (snd (run (static_server [repo_R1]) False present_args ?s)) ! i) f
             = dget (repository_configs ?s ! i) f)
        \<and> map_option (\<lambda>v. lower (py_str v))
             (dget (repository_configs (snd (run (static_server [repo_R1]) False present_args ?s)) ! i) ''key'')
          = map_option (\<lambda>v. lower (py_str v)) (dget (repository_configs ?s ! i) ''key'')"
    using run_keeps_desired_up_to_key_case [of "static_server [repo_R1]" False present_args ?s]
    by blast
  then have "(\<forall>f. f \<noteq> ''key'' \<longrightarrow> dget ([repo_R1] ! 0) f = dget ([repo_r1] ! 0) f)
        \<and> map_option (\<lambda>v. lower (py_str v)) (dget ([repo_R1] ! 0) ''key'')
          = map_option (\<lambda>v. lower (py_str v)) (dget ([repo_r1] ! 0) ''key'')"
    using e by simp
  then show ?thesis using e by simp
qed

end
